theory Spec2Isabelle
  imports Complex_Main
begin

section \<open>Machine numbers\<close>

text \<open>
  \<open>i32\<close> values are modelled by the integers they denote. On the states the main
  loop reaches, the player's \<open>x\<close> stays between 0 and 576, the speed is 4 and the
  widths are 64, so the sums and differences of the update step are far from the bounds
  of \<open>i32\<close>. The theorems on positions are stated on these states, or take the speed
  and the width of the program as hypotheses.

  \<open>f32\<close> values are modelled by the real numbers they denote. Every \<open>f32\<close>
  operation computes the exact result and rounds it to the nearest binary32 value, ties
  to even (24 significant bits, exponents from \<open>-126\<close>, subnormals included).
  Magnitudes of \<open>2^128\<close> and above, infinities and NaN are not modelled.
\<close>

type_synonym i32 = int
type_synonym f32 = real

definition round_half_even :: "real \<Rightarrow> int" where
  "round_half_even v =
     (let f = \<lfloor>v\<rfloor>; r = v - of_int f
      in if r < 1 / 2 then f
         else if 1 / 2 < r then f + 1
         else if even f then f else f + 1)"

text \<open>
  \<open>f32_normalise n v 0\<close> is the binary exponent of \<open>v > 0\<close>: the \<open>e\<close> with
  \<open>2^e \<le> v < 2^(e+1)\<close>, but never below \<open>-126\<close>, the exponent of the subnormals.
  The first argument bounds the number of halvings and doublings.
\<close>

fun f32_normalise :: "nat \<Rightarrow> real \<Rightarrow> int \<Rightarrow> int" where
  "f32_normalise 0 v e = e"
| "f32_normalise (Suc n) v e =
     (if 2 \<le> v then f32_normalise n (v / 2) (e + 1)
      else if v < 1 \<and> -126 < e then f32_normalise n (v * 2) (e - 1)
      else e)"

definition f32_exponent :: "real \<Rightarrow> int" where
  "f32_exponent v = f32_normalise 300 \<bar>v\<bar> 0"

definition f32_round :: "real \<Rightarrow> f32" where
  "f32_round v =
     (if v = 0 then 0
      else let u = 2 powi (f32_exponent v - 23)
           in of_int (round_half_even (v / u)) * u)"

definition fadd :: "f32 \<Rightarrow> f32 \<Rightarrow> f32" where
  "fadd a b = f32_round (a + b)"

definition fmul :: "f32 \<Rightarrow> f32 \<Rightarrow> f32" where
  "fmul a b = f32_round (a * b)"

definition fdiv :: "f32 \<Rightarrow> f32 \<Rightarrow> f32" where
  "fdiv a b = f32_round (a / b)"

definition i32_to_f32 :: "i32 \<Rightarrow> f32" where
  "i32_to_f32 n = f32_round (of_int n)"

text \<open>
  Assigning an \<open>f32\<close> to an \<open>i32\<close> discards the fractional part. In C++ the
  conversion is undefined when the result does not fit an \<open>i32\<close>; the model gives
  the truncated value in every case. The value that the update step converts lies
  between 0 and 576 whenever the sine lies between \<open>-1\<close> and 1.
\<close>

definition f32_to_i32 :: "f32 \<Rightarrow> i32" where
  "f32_to_i32 v = (if 0 \<le> v then \<lfloor>v\<rfloor> else \<lceil>v\<rceil>)"

text \<open>
  The C library's \<open>sinf\<close> is not part of the repository: the update step takes it as a
  parameter. To run the model on concrete inputs, \<open>sinf_poly\<close> stands in for it: the
  Maclaurin polynomial of the sine of degree 5, rounded to \<open>f32\<close>.
\<close>

definition sinf_poly :: "f32 \<Rightarrow> f32" where
  "sinf_poly t = f32_round (t - t ^ 3 / 6 + t ^ 5 / 120)"


section \<open>Constants and scene state\<close>

record Vector2 =
  x :: i32
  y :: i32

definition screen_width :: int where
  "screen_width = 640"

definition screen_height :: int where
  "screen_height = 480"

definition max_path_len :: nat where
  "max_path_len = 256"

definition frame_time :: f32 where
  "frame_time = fdiv 1 60"

record Player =
  position :: Vector2
  size' :: Vector2
  speed :: i32

record Enemy =
  position :: Vector2
  size' :: Vector2

text \<open>
  The globals \<open>player\<close>, \<open>enemy\<close> and \<open>elapsed_time\<close>, and the two flags that
  \<open>main\<close> keeps across the iterations of its loop.
\<close>

record Game =
  player :: Player
  enemy :: Enemy
  elapsed_time :: f32
  move_left :: bool
  move_right :: bool

definition player_init :: Player where
  "player_init =
     \<lparr>Player.position = \<lparr>x = 0, y = 400\<rparr>, Player.size' = \<lparr>x = 64, y = 64\<rparr>, speed = 4\<rparr>"

definition enemy_init :: Enemy where
  "enemy_init = \<lparr>Enemy.position = \<lparr>x = 0, y = 0\<rparr>, Enemy.size' = \<lparr>x = 64, y = 64\<rparr>\<rparr>"

definition game_init :: Game where
  "game_init =
     \<lparr>player = player_init, enemy = enemy_init, elapsed_time = 0,
      move_left = False, move_right = False\<rparr>"


section \<open>The update step\<close>

definition clamp_position :: "Vector2 \<Rightarrow> Vector2 \<Rightarrow> Vector2" where
  "clamp_position pos sz =
     (let pos = pos\<lparr>x := max (x pos) 0\<rparr>
      in pos\<lparr>x := min (x pos) (screen_width - x sz)\<rparr>)"

text \<open>Lines 170 and 171: the player moves by its speed, to the left and to the right.\<close>

definition move_player :: "bool \<Rightarrow> bool \<Rightarrow> Player \<Rightarrow> Player" where
  "move_player left right p =
     (let p = (if left
               then p\<lparr>Player.position := (Player.position p)\<lparr>x := x (Player.position p) - speed p\<rparr>\<rparr>
               else p)
      in if right
         then p\<lparr>Player.position := (Player.position p)\<lparr>x := x (Player.position p) + speed p\<rparr>\<rparr>
         else p)"

text \<open>Lines 173 to 175: the enemy's \<open>x\<close> follows the sine of the elapsed time.\<close>

definition move_enemy :: "(f32 \<Rightarrow> f32) \<Rightarrow> f32 \<Rightarrow> Enemy \<Rightarrow> Enemy" where
  "move_enemy sinf t e =
     (let enemy_max_x = screen_width - x (Enemy.size' e);
          oscillator = fdiv (fadd (sinf t) 1) 2
      in e\<lparr>Enemy.position :=
             (Enemy.position e)\<lparr>x := f32_to_i32 (fmul oscillator (i32_to_f32 enemy_max_x))\<rparr>\<rparr>)"

text \<open>
  Lines 170 to 182 of \<open>main\<close>: the game update of one iteration. Both positions are
  clamped after both entities have moved.
\<close>

definition update :: "(f32 \<Rightarrow> f32) \<Rightarrow> Game \<Rightarrow> Game" where
  "update sinf g =
     (let p = move_player (move_left g) (move_right g) (player g);
          e = move_enemy sinf (elapsed_time g) (enemy g);
          p = p\<lparr>Player.position := clamp_position (Player.position p) (Player.size' p)\<rparr>;
          e = e\<lparr>Enemy.position := clamp_position (Enemy.position e) (Enemy.size' e)\<rparr>
      in g\<lparr>player := p, enemy := e\<rparr>)"

text \<open>
  The rest of the iteration: rendering reads the state and leaves it as it is, then
  \<open>elapsed_time\<close> advances by \<open>frame_time\<close>.
\<close>

definition step :: "(f32 \<Rightarrow> f32) \<Rightarrow> Game \<Rightarrow> Game" where
  "step sinf g = (let g = update sinf g in g\<lparr>elapsed_time := fadd (elapsed_time g) frame_time\<rparr>)"


section \<open>Input and the main loop\<close>

datatype SDL_Keycode = SDLK_LEFT | SDLK_RIGHT | SDLK_other

datatype SDL_Event = SDL_QUIT | SDL_KEYDOWN SDL_Keycode | SDL_KEYUP SDL_Keycode | SDL_other

text \<open>
  The inner loop over \<open>SDL_PollEvent\<close>, on the events pending at the start of an
  iteration. \<open>None\<close> is the \<open>return 0\<close> on \<open>SDL_QUIT\<close>.
\<close>

fun poll_events :: "SDL_Event list \<Rightarrow> Game \<Rightarrow> Game option" where
  "poll_events [] g = Some g"
| "poll_events (SDL_QUIT # es) g = None"
| "poll_events (SDL_KEYDOWN key_code # es) g =
     poll_events es
       (if key_code = SDLK_LEFT then g\<lparr>move_left := True\<rparr>
        else if key_code = SDLK_RIGHT then g\<lparr>move_right := True\<rparr>
        else g)"
| "poll_events (SDL_KEYUP key_code # es) g =
     poll_events es
       (if key_code = SDLK_LEFT then g\<lparr>move_left := False\<rparr>
        else if key_code = SDLK_RIGHT then g\<lparr>move_right := False\<rparr>
        else g)"
| "poll_events (SDL_other # es) g = poll_events es g"

text \<open>
  \<open>Exited c\<close> is a \<open>return c\<close> of \<open>main\<close>. \<open>Running g\<close> says that the loop is
  still going, in state \<open>g\<close>, once the batches of events are used up. \<open>Undefined\<close>
  says that the program has left the behaviour that C++ defines, by a read through a
  null pointer or outside a buffer: the model gives it no exit status then (the read
  through the null pointer ends the process by a signal).
\<close>

datatype outcome = Exited int | Running Game | Undefined

text \<open>The \<open>while (true)\<close> loop, run on the event batches of its first iterations.\<close>

fun run :: "(f32 \<Rightarrow> f32) \<Rightarrow> SDL_Event list list \<Rightarrow> Game \<Rightarrow> outcome" where
  "run sinf [] g = Running g"
| "run sinf (es # batches) g =
     (case poll_events es g of
        None \<Rightarrow> Exited 0
      | Some g \<Rightarrow> run sinf batches (step sinf g))"


section \<open>The install directory\<close>

text \<open>
  A buffer is the list of its bytes. A read or a write at an index outside the buffer
  is the error \<open>OutOfBounds\<close>.
\<close>

datatype error = OutOfBounds

definition NUL :: char where
  "NUL = CHR 0x00"

text \<open>
  \<open>readlink\<close> copies the target of \<open>/proc/self/exe\<close> into the buffer, at most
  \<open>buffer_len\<close> bytes of it, and writes no terminator. When it fails (\<open>None\<close>) the
  buffer stays as it is. Its return value is not looked at.
\<close>

definition readlink :: "string option \<Rightarrow> char list \<Rightarrow> nat \<Rightarrow> error + char list" where
  "readlink target buffer buffer_len =
     (case target of
        None \<Rightarrow> Inr buffer
      | Some path \<Rightarrow>
          (let n = min (length path) buffer_len
           in if n \<le> length buffer then Inr (take n path @ drop n buffer)
              else Inl OutOfBounds))"

fun strlen :: "char list \<Rightarrow> error + nat" where
  "strlen [] = Inl OutOfBounds"
| "strlen (c # cs) =
     (if c = NUL then Inr 0
      else case strlen cs of Inl e \<Rightarrow> Inl e | Inr n \<Rightarrow> Inr (Suc n))"

function strip_loop :: "char list \<Rightarrow> int \<Rightarrow> int \<Rightarrow> error + char list" where
  "strip_loop buffer i removed =
     (if 0 < i then
        if nat i < length buffer then
          let removed = (if buffer ! nat i = CHR ''/'' then removed + 1 else removed);
              buffer = buffer[nat i := NUL]
          in if removed = 3 then Inr buffer else strip_loop buffer (i - 1) removed
        else Inl OutOfBounds
      else Inr buffer)"
  by pat_completeness auto
termination
  by (relation "measure (\<lambda>(buffer, i, removed). nat i)") auto

definition set_install_dir :: "string option \<Rightarrow> char list \<Rightarrow> nat \<Rightarrow> error + char list" where
  "set_install_dir target buffer buffer_len =
     (case readlink target buffer buffer_len of
        Inl e \<Rightarrow> Inl e
      | Inr buffer \<Rightarrow>
          (case strlen buffer of
             Inl e \<Rightarrow> Inl e
           | Inr len \<Rightarrow> strip_loop buffer (int len - 1) 0))"

text \<open>The string a buffer holds: its bytes before the first \<open>NUL\<close>.\<close>

definition c_str :: "char list \<Rightarrow> string" where
  "c_str buffer = takeWhile (\<lambda>c. c \<noteq> NUL) buffer"

text \<open>\<open>root\<close> as it is before \<open>init\<close> runs: \<open>max_path_len\<close> zero bytes.\<close>

definition root_init :: "char list" where
  "root_init = replicate max_path_len NUL"


section \<open>Asset paths\<close>

text \<open>
  \<open>snprintf\<close> writes the formatted string into a buffer of \<open>buffer_len\<close> bytes, cut
  to \<open>buffer_len - 1\<close> bytes, and the terminator after it. The model keeps the string
  that the buffer then holds.
\<close>

definition snprintf :: "nat \<Rightarrow> string \<Rightarrow> string" where
  "snprintf buffer_len s = take (buffer_len - 1) s"

text \<open>
  \<open>init\<close> fills \<open>root\<close> and \<open>assets\<close>, both zeroed before, and the model returns
  the two. Its argument is what \<open>readlink\<close> finds. The format \<open>%s\<close> reads \<open>root\<close>
  up to its first zero byte, which is there whenever \<open>set_install_dir\<close> returns.
\<close>

definition init :: "string option \<Rightarrow> error + char list \<times> string" where
  "init target =
     (case set_install_dir target root_init max_path_len of
        Inl e \<Rightarrow> Inl e
      | Inr root' \<Rightarrow> Inr (root', snprintf max_path_len (c_str root' @ ''/assets'')))"

text \<open>\<open>asset\<close> reads the global \<open>assets\<close>, here its first argument.\<close>

definition asset :: "string \<Rightarrow> string \<Rightarrow> nat \<Rightarrow> string" where
  "asset assets asset_name buffer_len = snprintf buffer_len (assets @ ''/'' @ asset_name)"


section \<open>Initialization and exit\<close>

text \<open>
  What the world outside gives to \<open>main\<close> before its loop: the status codes of
  \<open>SDL_Init\<close> and \<open>SDL_CreateWindowAndRenderer\<close>, whether \<open>SDL_GetWindowSurface\<close>
  gives a surface (a non-null pointer), the target of \<open>/proc/self/exe\<close> (\<open>None\<close>
  when \<open>readlink\<close> fails), and the paths for which \<open>IMG_LoadTexture\<close> gives a
  texture.
\<close>

record Env =
  SDL_Init :: int
  SDL_CreateWindowAndRenderer :: int
  SDL_GetWindowSurface :: bool
  proc_self_exe :: "string option"
  IMG_LoadTexture :: "string \<Rightarrow> bool"

text \<open>
  \<open>main\<close> checks the results of \<open>SDL_Init\<close>, of \<open>SDL_CreateWindowAndRenderer\<close>
  and of both \<open>IMG_LoadTexture\<close>. It reads \<open>surface->format\<close> without a check
  (line 110), and \<open>init\<close> runs \<open>set_install_dir\<close> (line 114), which may read
  outside \<open>root\<close>.
\<close>

definition main :: "(f32 \<Rightarrow> f32) \<Rightarrow> Env \<Rightarrow> SDL_Event list list \<Rightarrow> outcome" where
  "main sinf env batches =
     (if SDL_Init env < 0 then Exited 1
      else if SDL_CreateWindowAndRenderer env < 0 then Exited 1
      else if \<not> SDL_GetWindowSurface env then Undefined
      else case init (proc_self_exe env) of
             Inl e \<Rightarrow> Undefined
           | Inr (root', assets) \<Rightarrow>
               if \<not> IMG_LoadTexture env (asset assets ''ship.png'' max_path_len) then Exited 1
               else if \<not> IMG_LoadTexture env (asset assets ''enemy.png'' max_path_len)
               then Exited 1
               else run sinf batches game_init)"


section \<open>Three directory levels up, as the specification words it\<close>

text \<open>
  The specification takes the install root to be three directory levels up from the
  path of the executable, and names the operation: the path-parent operation of the
  operating system, applied three times. \<open>spec_parent\<close> is that operation on a path
  without repeated or trailing separators: it removes the last segment and the
  separator before it, and the parent of the root directory is the root directory.
\<close>

definition spec_parent :: "string \<Rightarrow> string" where
  "spec_parent p =
     (let d = rev (tl (dropWhile (\<lambda>c. c \<noteq> CHR ''/'') (rev p)))
      in if d = [] \<and> take 1 p = ''/'' then ''/'' else d)"

definition spec_three_levels_up :: "string \<Rightarrow> string" where
  "spec_three_levels_up p = spec_parent (spec_parent (spec_parent p))"

section \<open>The update step, field by field\<close>

lemma update_player_y [simp]:
  "y (Player.position (player (update sinf g))) = y (Player.position (player g))"
  by (simp add: update_def move_player_def clamp_position_def Let_def)

lemma update_enemy_y [simp]:
  "y (Enemy.position (enemy (update sinf g))) = y (Enemy.position (enemy g))"
  by (simp add: update_def move_enemy_def clamp_position_def Let_def)

lemma update_keeps [simp]:
  "Player.size' (player (update sinf g)) = Player.size' (player g)"
  "speed (player (update sinf g)) = speed (player g)"
  "Enemy.size' (enemy (update sinf g)) = Enemy.size' (enemy g)"
  "elapsed_time (update sinf g) = elapsed_time g"
  "move_left (update sinf g) = move_left g"
  "move_right (update sinf g) = move_right g"
  by (simp_all add: update_def move_player_def move_enemy_def Let_def)

lemma update_player_x:
  "x (Player.position (player (update sinf g))) =
     min (max (x (Player.position (player g))
               - (if move_left g then speed (player g) else 0)
               + (if move_right g then speed (player g) else 0)) 0)
         (screen_width - x (Player.size' (player g)))"
  by (simp add: update_def move_player_def clamp_position_def Let_def)

lemma update_enemy_x:
  "x (Enemy.position (enemy (update sinf g))) =
     min (max (f32_to_i32 (fmul (fdiv (fadd (sinf (elapsed_time g)) 1) 2)
                                (i32_to_f32 (screen_width - x (Enemy.size' (enemy g)))))) 0)
         (screen_width - x (Enemy.size' (enemy g)))"
  by (simp add: update_def move_enemy_def clamp_position_def Let_def)

lemma update_enemy_cong:
  "enemy g = enemy h \<Longrightarrow> elapsed_time g = elapsed_time h \<Longrightarrow>
     enemy (update sinf g) = enemy (update sinf h)"
  by (simp add: update_def Let_def)

lemma update_in_range:
  assumes "x (Player.size' (player g)) = 64" and "x (Enemy.size' (enemy g)) = 64"
  shows "0 \<le> x (Player.position (player (update sinf g)))"
    and "x (Player.position (player (update sinf g))) \<le> 640 - 64"
    and "0 \<le> x (Enemy.position (enemy (update sinf g)))"
    and "x (Enemy.position (enemy (update sinf g))) \<le> 640 - 64"
  using assms by (simp_all add: update_player_x update_enemy_x screen_width_def)

lemma step_player [simp]: "player (step sinf g) = player (update sinf g)"
  and step_enemy [simp]: "enemy (step sinf g) = enemy (update sinf g)"
  and step_move_left [simp]: "move_left (step sinf g) = move_left g"
  and step_move_right [simp]: "move_right (step sinf g) = move_right g"
  and step_elapsed_time [simp]: "elapsed_time (step sinf g) = fadd (elapsed_time g) frame_time"
  by (simp_all add: step_def Let_def)

lemma funpow_step_keeps [simp]:
  "move_left ((step sinf ^^ n) g) = move_left g"
  "move_right ((step sinf ^^ n) g) = move_right g"
  "speed (player ((step sinf ^^ n) g)) = speed (player g)"
  "Player.size' (player ((step sinf ^^ n) g)) = Player.size' (player g)"
  "Enemy.size' (enemy ((step sinf ^^ n) g)) = Enemy.size' (enemy g)"
  by (induction n) simp_all

section \<open>The main loop\<close>

lemma poll_events_keeps:
  "poll_events es g = Some g' \<Longrightarrow>
     player g' = player g \<and> enemy g' = enemy g \<and> elapsed_time g' = elapsed_time g"
  by (induction es g rule: poll_events.induct) (auto split: if_splits)

lemma poll_events_quit: "poll_events es g = None \<longleftrightarrow> SDL_QUIT \<in> set es"
  by (induction es g rule: poll_events.induct) auto

text \<open>
  A property that the initial state has, and that polling events and running one
  iteration keep, holds in every state the loop reaches.
\<close>

lemma run_induct_state:
  assumes "run sinf batches g = Running g'"
    and "P g"
    and "\<And>es h h'. P h \<Longrightarrow> poll_events es h = Some h' \<Longrightarrow> P (step sinf h')"
  shows "P g'"
  using assms(1,2)
proof (induction batches arbitrary: g)
  case Nil
  then show ?case by simp
next
  case (Cons es batches)
  from Cons.prems(1) obtain h where h: "poll_events es g = Some h"
    and r: "run sinf batches (step sinf h) = Running g'"
    by (auto split: option.splits)
  from assms(3)[OF Cons.prems(2) h] have "P (step sinf h)" .
  with Cons.IH r show ?case by blast
qed

lemma run_exit_code: "run sinf batches g = Exited c \<Longrightarrow> c = 0"
  by (induction batches arbitrary: g) (auto split: option.splits)

lemma run_quit: "run sinf batches g = Exited 0 \<longleftrightarrow> (\<exists>es\<in>set batches. SDL_QUIT \<in> set es)"
proof (induction batches arbitrary: g)
  case Nil
  then show ?case by simp
next
  case (Cons es batches)
  show ?case
  proof (cases "poll_events es g")
    case None
    then have "SDL_QUIT \<in> set es"
      using poll_events_quit [of es g] by simp
    with None show ?thesis by simp
  next
    case (Some h)
    then have "SDL_QUIT \<notin> set es"
      using poll_events_quit [of es g] by simp
    with Some Cons.IH [of "step sinf h"] show ?thesis by simp
  qed
qed

text \<open>Iterations without pending events are iterations of \<open>step\<close>.\<close>

lemma run_no_events: "run sinf (replicate n []) g = Running ((step sinf ^^ n) g)"
  by (induction n arbitrary: g) (simp_all add: funpow_swap1)

lemma run_sizes:
  assumes "run sinf batches game_init = Running g"
  shows "x (Player.size' (player g)) = 64 \<and> x (Enemy.size' (enemy g)) = 64 \<and> speed (player g) = 4"
proof (rule run_induct_state [OF assms])
  show "x (Player.size' (player game_init)) = 64 \<and> x (Enemy.size' (enemy game_init)) = 64
          \<and> speed (player game_init) = 4"
    by (simp add: game_init_def player_init_def enemy_init_def)
next
  fix es h h'
  assume "x (Player.size' (player h)) = 64 \<and> x (Enemy.size' (enemy h)) = 64 \<and> speed (player h) = 4"
    and "poll_events es h = Some h'"
  then show "x (Player.size' (player (step sinf h'))) = 64
      \<and> x (Enemy.size' (enemy (step sinf h'))) = 64 \<and> speed (player (step sinf h')) = 4"
    using poll_events_keeps [of es h h'] by simp
qed

section \<open>Evaluating \<open>f32\<close> arithmetic\<close>

text \<open>
  On numerals the simplifier computes the rounding: \<open>f32_eval\<close> unfolds the operations,
  and the rule below runs \<open>f32_normalise\<close> on a fuel given as a numeral.
\<close>

lemma f32_normalise_numeral:
  "f32_normalise (numeral k) v e =
     (if 2 \<le> v then f32_normalise (pred_numeral k) (v / 2) (e + 1)
      else if v < 1 \<and> -126 < e then f32_normalise (pred_numeral k) (v * 2) (e - 1)
      else e)"
  by (simp add: numeral_eq_Suc)

lemmas f32_eval = fadd_def fmul_def fdiv_def i32_to_f32_def f32_to_i32_def f32_round_def
  f32_exponent_def round_half_even_def Let_def f32_normalise_numeral

lemma frame_time_value: "frame_time = 8947849 / 536870912"
  by (simp add: frame_time_def f32_eval)

lemma i32_to_f32_576: "i32_to_f32 576 = 576"
  by (simp add: f32_eval)

lemma sinf_poly_0: "sinf_poly 0 = 0"
  by (simp add: sinf_poly_def f32_eval)

lemma sinf_poly_frame_time: "sinf_poly (8947849 / 536870912) = 8947435 / 536870912"
  by (simp add: sinf_poly_def f32_eval power_divide)

lemma oscillate_0: "f32_to_i32 (fmul (fdiv (fadd 0 1) 2) 576) = 288"
  by (simp add: f32_eval)

lemma oscillate_frame_time:
  "f32_to_i32 (fmul (fdiv (fadd (8947435 / 536870912) 1) 2) 576) = 292"
  by (simp add: f32_eval)

lemma fadd_frame_time_0: "fadd 0 frame_time = frame_time"
  by (simp add: frame_time_value f32_eval)

lemma fadd_frame_time_1: "fadd frame_time frame_time = 2 * frame_time"
  by (simp add: frame_time_value f32_eval)

text \<open>
  Rounding keeps a value on its side of an integer, when the integer is itself an
  \<open>f32\<close> at the exponent of the value. So for a sine between \<open>-1\<close> and 1 the
  product that the update step converts to \<open>i32\<close> lies between 0 and 576.
\<close>

lemma round_half_even_le: "v \<le> of_int n \<Longrightarrow> round_half_even v \<le> n"
proof -
  assume le: "v \<le> of_int n"
  have f: "\<lfloor>v\<rfloor> \<le> n"
    using le by (simp add: floor_le_iff)
  have "\<lfloor>v\<rfloor> + 1 \<le> n" if "0 < v - of_int \<lfloor>v\<rfloor>"
  proof -
    from that le have "of_int \<lfloor>v\<rfloor> < (of_int n :: real)" by linarith
    then show ?thesis by simp
  qed
  with f show ?thesis
    by (auto simp: round_half_even_def Let_def)
qed

lemma round_half_even_ge: "of_int n \<le> v \<Longrightarrow> n \<le> round_half_even v"
proof -
  assume "of_int n \<le> v"
  then have "n \<le> \<lfloor>v\<rfloor>"
    by (simp add: le_floor_iff)
  then show ?thesis
    by (auto simp: round_half_even_def Let_def)
qed

lemma f32_normalise_le: "v < 2 ^ Suc k \<Longrightarrow> f32_normalise n v e \<le> e + int k"
proof (induction n arbitrary: v e k)
  case 0
  then show ?case by simp
next
  case (Suc n)
  show ?case
  proof (cases "2 \<le> v")
    case True
    with Suc.prems obtain j where k: "k = Suc j"
      by (cases k) auto
    with Suc.prems have "v / 2 < 2 ^ Suc j" by simp
    from Suc.IH [OF this, of "e + 1"] True k show ?thesis by simp
  next
    case False
    then have "v * 2 < 2 ^ Suc 0 \<or> \<not> v < 1" by auto
    then show ?thesis
    proof
      assume "v * 2 < 2 ^ Suc 0"
      from Suc.IH [OF this, of "e - 1"] False show ?thesis by simp
    next
      assume "\<not> v < 1"
      with False show ?thesis by simp
    qed
  qed
qed

lemma f32_exponent_le: "\<bar>v\<bar> < 2 ^ Suc k \<Longrightarrow> f32_exponent v \<le> int k"
  using f32_normalise_le [of "\<bar>v\<bar>" k 300 0] by (simp add: f32_exponent_def)

lemma f32_round_le:
  assumes "v \<le> of_int m" and "f32_exponent v \<le> 23"
  shows "f32_round v \<le> of_int m"
proof (cases "v = 0")
  case True
  with assms(1) show ?thesis by (simp add: f32_round_def)
next
  case False
  define N where "N = nat (23 - f32_exponent v)"
  define u :: real where "u = 2 powi (f32_exponent v - 23)"
  have u: "u = 1 / 2 ^ N"
    using assms(2) by (simp add: u_def N_def power_int_def field_simps)
  then have pos: "0 < u" by simp
  have "v / u \<le> of_int (m * 2 ^ N)"
    using assms(1) by (simp add: u)
  then have "round_half_even (v / u) \<le> m * 2 ^ N"
    by (rule round_half_even_le)
  then have "(of_int (round_half_even (v / u)) :: real) \<le> of_int (m * 2 ^ N)"
    by (simp only: of_int_le_iff)
  then have "of_int (round_half_even (v / u)) * u \<le> of_int (m * 2 ^ N) * u"
    using pos by (simp only: mult_le_cancel_right_pos)
  also have "of_int (m * 2 ^ N) * u = of_int m"
    by (simp add: u)
  finally show ?thesis
    using False by (simp add: f32_round_def Let_def u_def)
qed

lemma f32_round_nonneg:
  assumes "0 \<le> v"
  shows "0 \<le> f32_round v"
proof -
  have "0 \<le> round_half_even (v / 2 powi (f32_exponent v - 23))"
    using assms by (intro round_half_even_ge) simp
  then show ?thesis
    by (simp add: f32_round_def Let_def)
qed

lemma oscillator_range:
  assumes "- 1 \<le> s" and "s \<le> 1"
  shows "0 \<le> fmul (fdiv (fadd s 1) 2) 576" and "fmul (fdiv (fadd s 1) 2) 576 \<le> 576"
proof -
  have a0: "0 \<le> fadd s 1"
    using assms(1) by (simp add: fadd_def f32_round_nonneg)
  have "f32_exponent (s + 1) \<le> 23"
    using f32_exponent_le [of "s + 1" 1] assms by simp
  then have a2: "fadd s 1 \<le> 2"
    using f32_round_le [of "s + 1" 2] assms(2) by (simp add: fadd_def)
  have o0: "0 \<le> fdiv (fadd s 1) 2"
    using a0 by (simp add: fdiv_def f32_round_nonneg)
  have "f32_exponent (fadd s 1 / 2) \<le> 23"
    using f32_exponent_le [of "fadd s 1 / 2" 0] a0 a2 by simp
  then have o1: "fdiv (fadd s 1) 2 \<le> 1"
    using f32_round_le [of "fadd s 1 / 2" 1] a2 by (simp add: fdiv_def)
  show "0 \<le> fmul (fdiv (fadd s 1) 2) 576"
    using o0 by (simp add: fmul_def f32_round_nonneg)
  have "f32_exponent (fdiv (fadd s 1) 2 * 576) \<le> 23"
    using f32_exponent_le [of "fdiv (fadd s 1) 2 * 576" 9] o0 o1 by simp
  then show "fmul (fdiv (fadd s 1) 2) 576 \<le> 576"
    using f32_round_le [of "fdiv (fadd s 1) 2 * 576" 576] o1 by (simp add: fmul_def)
qed

text \<open>
  The rounding is the one of binary32. For a magnitude between \<open>2^-126\<close> and
  \<open>2^128\<close>, \<open>f32_exponent\<close> is the binary exponent; \<open>f32_round\<close> gives an integer
  of at most 24 bits times the unit in the last place, within half a unit of the exact
  value.
\<close>

lemma round_half_even_error: "\<bar>of_int (round_half_even v) - v\<bar> \<le> 1 / 2"
proof -
  have "of_int \<lfloor>v\<rfloor> \<le> v" and "v < of_int \<lfloor>v\<rfloor> + 1"
    by linarith+
  then show ?thesis
    by (auto simp: round_half_even_def Let_def abs_le_iff)
qed

lemma f32_normalise_exponent:
  assumes "2 powi (- int n) \<le> v" and "v < 2 powi (int n + 1)"
    and "2 powi (- 126) \<le> v * 2 powi e"
  shows "2 powi (f32_normalise n v e) \<le> v * 2 powi e
       \<and> v * 2 powi e < 2 powi (f32_normalise n v e + 1)"
  using assms
proof (induction n arbitrary: v e)
  case 0
  then show ?case
    by (simp add: power_int_add)
next
  case (Suc n)
  from Suc.prems(1) have pos: "0 < v"
    using zero_less_power_int [of "2 :: real" "- int (Suc n)"] by linarith
  show ?case
  proof (cases "2 \<le> v")
    case True
    have "2 powi (- int n) \<le> (1 :: real)"
      by (simp add: power_int_minus inverse_le_1_iff one_le_power)
    with True have a: "2 powi (- int n) \<le> v / 2" by simp
    from Suc.prems(2) have b: "v / 2 < 2 powi (int n + 1)"
      by (simp add: power_int_add)
    have c: "v / 2 * 2 powi (e + 1) = v * 2 powi e"
      by (simp add: power_int_add)
    from Suc.prems(3) have d: "2 powi (- 126) \<le> v / 2 * 2 powi (e + 1)"
      by (simp only: c)
    have r: "f32_normalise (Suc n) v e = f32_normalise n (v / 2) (e + 1)"
      using True by simp
    from Suc.IH [OF a b d] show ?thesis
      unfolding r c .
  next
    case False
    show ?thesis
    proof (cases "v < 1")
      case True
      have c: "v * 2 * 2 powi (e - 1) = v * 2 powi e"
        by (simp add: power_int_diff)
      have "v * 2 powi e < 1 * 2 powi e"
        using True by (intro mult_strict_right_mono) simp_all
      then have "v * 2 powi e < 2 powi e" by simp
      with Suc.prems(3) have lt: "2 powi (- 126) < (2 :: real) powi e"
        by (rule le_less_trans)
      have e: "- 126 < e"
      proof (rule ccontr)
        assume "\<not> - 126 < e"
        then have "(2 :: real) powi e \<le> 2 powi (- 126)"
          by (intro power_int_increasing) simp_all
        with lt show False by (rule less_le_not_le [THEN iffD1, THEN conjunct2, THEN notE])
      qed
      from Suc.prems(1) have a: "2 powi (- int n) \<le> v * 2"
        by (simp add: power_int_diff power_int_minus field_simps)
      have "(2 :: real) powi 1 \<le> 2 powi (int n + 1)"
        by (intro power_int_increasing) simp_all
      then have "(2 :: real) \<le> 2 powi (int n + 1)"
        by simp
      with True have b: "v * 2 < 2 powi (int n + 1)" by linarith
      from Suc.prems(3) have d: "2 powi (- 126) \<le> v * 2 * 2 powi (e - 1)"
        by (simp only: c)
      have r: "f32_normalise (Suc n) v e = f32_normalise n (v * 2) (e - 1)"
        using True \<open>\<not> 2 \<le> v\<close> e by simp
      from Suc.IH [OF a b d] show ?thesis
        unfolding r c .
    next
      case False
      with \<open>\<not> 2 \<le> v\<close> have "1 \<le> v" and "v < 2" by simp_all
      then have "1 * 2 powi e \<le> v * 2 powi e" and "v * 2 powi e < 2 * 2 powi e"
        by (simp_all add: mult_right_mono)
      with False \<open>\<not> 2 \<le> v\<close> show ?thesis
        by (simp add: power_int_add)
    qed
  qed
qed

lemma f32_exponent_correct:
  assumes "2 powi (- 126) \<le> \<bar>v\<bar>" and "\<bar>v\<bar> < 2 powi 128"
  shows "2 powi (f32_exponent v) \<le> \<bar>v\<bar>" and "\<bar>v\<bar> < 2 powi (f32_exponent v + 1)"
proof -
  have "(2 :: real) powi (- int 300) \<le> 2 powi (- 126)"
    by (intro power_int_increasing) simp_all
  with assms(1) have a: "2 powi (- int 300) \<le> \<bar>v\<bar>" by linarith
  have "(2 :: real) powi 128 \<le> 2 powi (int 300 + 1)"
    by (intro power_int_increasing) simp_all
  with assms(2) have b: "\<bar>v\<bar> < 2 powi (int 300 + 1)" by linarith
  from f32_normalise_exponent [OF a b, of 0] assms(1)
  show "2 powi (f32_exponent v) \<le> \<bar>v\<bar>" and "\<bar>v\<bar> < 2 powi (f32_exponent v + 1)"
    by (simp_all add: f32_exponent_def)
qed

lemma f32_round_error:
  "\<bar>f32_round v - v\<bar> \<le> 2 powi (f32_exponent v - 24)"
proof (cases "v = 0")
  case True
  then show ?thesis by (simp add: f32_round_def)
next
  case False
  define u :: real where "u = 2 powi (f32_exponent v - 23)"
  have pos: "0 < u" by (simp add: u_def)
  have h1: "\<bar>of_int (round_half_even (v / u)) - v / u\<bar> * u \<le> 1 / 2 * u"
    using round_half_even_error [of "v / u"] pos by (intro mult_right_mono) simp_all
  have h2: "\<bar>of_int (round_half_even (v / u)) - v / u\<bar> * u
      = \<bar>of_int (round_half_even (v / u)) * u - v\<bar>"
  proof -
    have "\<bar>of_int (round_half_even (v / u)) - v / u\<bar> * u
        = \<bar>(of_int (round_half_even (v / u)) - v / u) * u\<bar>"
      using pos by (simp add: abs_mult)
    also have "(of_int (round_half_even (v / u)) - v / u) * u
        = of_int (round_half_even (v / u)) * u - v"
      using pos by (simp add: left_diff_distrib)
    finally show ?thesis .
  qed
  have h3: "1 / 2 * u = 2 powi (f32_exponent v - 24)"
    by (simp add: u_def power_int_diff)
  have fr: "f32_round v = of_int (round_half_even (v / u)) * u"
    using False by (simp add: f32_round_def Let_def u_def)
  from h1 show ?thesis
    unfolding h2 h3 fr .
qed

lemma f32_round_mantissa:
  assumes "2 powi (- 126) \<le> \<bar>v\<bar>" and "\<bar>v\<bar> < 2 powi 128"
  shows "\<bar>round_half_even (v / 2 powi (f32_exponent v - 23))\<bar> \<le> 2 ^ 24"
proof -
  define u :: real where "u = 2 powi (f32_exponent v - 23)"
  have pos: "0 < u" by (simp add: u_def)
  have "2 powi (f32_exponent v + 1) = 2 ^ 24 * u"
    by (simp add: u_def power_int_add power_int_diff)
  with f32_exponent_correct(2) [OF assms] have "\<bar>v\<bar> < 2 ^ 24 * u"
    by simp
  then have "\<bar>v\<bar> / u < 2 ^ 24"
    using pos by (simp add: pos_divide_less_eq)
  then have "\<bar>v / u\<bar> < 2 ^ 24"
    using pos by simp
  then have "v / u < 2 ^ 24" and "- (2 ^ 24) < v / u"
    unfolding abs_less_iff by linarith+
  then have le: "v / u \<le> of_int (2 ^ 24)" and ge: "of_int (- (2 ^ 24)) \<le> v / u"
    by simp_all
  from le have "round_half_even (v / u) \<le> 2 ^ 24"
    by (rule round_half_even_le)
  moreover from ge have "- (2 ^ 24) \<le> round_half_even (v / u)"
    by (rule round_half_even_ge)
  ultimately show ?thesis
    unfolding u_def by (simp add: abs_le_iff)
qed

text \<open>Two iterations from the initial state, on two different inputs.\<close>

lemma run_two_frames:
  "run sinf_poly [[SDL_KEYDOWN SDLK_RIGHT], []] game_init =
     Running \<lparr>player = \<lparr>Player.position = \<lparr>x = 8, y = 400\<rparr>,
                         Player.size' = \<lparr>x = 64, y = 64\<rparr>, speed = 4\<rparr>,
              enemy = \<lparr>Enemy.position = \<lparr>x = 292, y = 0\<rparr>,
                        Enemy.size' = \<lparr>x = 64, y = 64\<rparr>\<rparr>,
              elapsed_time = 8947849 / 268435456,
              move_left = False, move_right = True\<rparr>"
  by (simp add: game_init_def player_init_def enemy_init_def step_def update_def
      move_player_def move_enemy_def clamp_position_def screen_width_def
      frame_time_value sinf_poly_def power_divide f32_eval)

lemma run_two_frames_other:
  "run sinf_poly [[], [SDL_KEYDOWN SDLK_LEFT]] game_init =
     Running \<lparr>player = \<lparr>Player.position = \<lparr>x = 0, y = 400\<rparr>,
                         Player.size' = \<lparr>x = 64, y = 64\<rparr>, speed = 4\<rparr>,
              enemy = \<lparr>Enemy.position = \<lparr>x = 292, y = 0\<rparr>,
                        Enemy.size' = \<lparr>x = 64, y = 64\<rparr>\<rparr>,
              elapsed_time = 8947849 / 268435456,
              move_left = True, move_right = False\<rparr>"
  by (simp add: game_init_def player_init_def enemy_init_def step_def update_def
      move_player_def move_enemy_def clamp_position_def screen_width_def
      frame_time_value sinf_poly_def power_divide f32_eval)

text \<open>The sine near 0, from its Maclaurin expansion.\<close>

lemma sin_cubic_bound: "\<bar>sin t - t\<bar> \<le> \<bar>t\<bar> ^ 3 / 6" for t :: real
  using Maclaurin_sin_bound [of t 3]
  by (simp add: sin_coeff_def lessThan_Suc eval_nat_numeral)

lemma sin_frame_time_bounds:
  "1 / 61 \<le> sin frame_time" "sin frame_time \<le> 1 / 59"
proof -
  have "\<bar>sin frame_time - frame_time\<bar> \<le> 1 / 1000000"
    using sin_cubic_bound [of frame_time]
    by (simp add: frame_time_value power_divide)
  then show "1 / 61 \<le> sin frame_time" "sin frame_time \<le> 1 / 59"
    unfolding frame_time_value by linarith+
qed

lemma sin_sixtieth_bounds:
  "1 / 61 \<le> sin (1 / 60 :: real)" "sin (1 / 60 :: real) \<le> 1 / 60"
proof -
  have "\<bar>sin (1 / 60 :: real) - 1 / 60\<bar> \<le> 1 / 1296000"
    using sin_cubic_bound [of "1 / 60"] by (simp add: power_divide)
  then show "1 / 61 \<le> sin (1 / 60 :: real)"
    by linarith
  show "sin (1 / 60 :: real) \<le> 1 / 60"
    by (rule sin_x_le_x) simp
qed

section \<open>Positions\<close>

text \<open>
  Claim C2. In every state that the main loop reaches from the initial state, whatever
  the events were, the update step of the next iteration leaves both entities with
  \<open>0 \<le> x \<le> 640 - 64\<close>. These are the positions that the iteration renders.
\<close>

theorem clamped_at_every_render:
  assumes "run sinf batches game_init = Running g"
    and "poll_events es g = Some g'"
  shows "0 \<le> x (Player.position (player (update sinf g')))
       \<and> x (Player.position (player (update sinf g'))) \<le> 640 - 64
       \<and> 0 \<le> x (Enemy.position (enemy (update sinf g')))
       \<and> x (Enemy.position (enemy (update sinf g'))) \<le> 640 - 64"
proof -
  from run_sizes [OF assms(1)] poll_events_keeps [OF assms(2)]
  have "x (Player.size' (player g')) = 64" and "x (Enemy.size' (enemy g')) = 64"
    by simp_all
  then show ?thesis
    using update_in_range [of g' sinf] by simp
qed

theorem clamped_at_every_render_witness:
  "run sinf_poly [[SDL_KEYDOWN SDLK_RIGHT], []] game_init =
     Running \<lparr>player = \<lparr>Player.position = \<lparr>x = 8, y = 400\<rparr>,
                         Player.size' = \<lparr>x = 64, y = 64\<rparr>, speed = 4\<rparr>,
              enemy = \<lparr>Enemy.position = \<lparr>x = 292, y = 0\<rparr>,
                        Enemy.size' = \<lparr>x = 64, y = 64\<rparr>\<rparr>,
              elapsed_time = 8947849 / 268435456,
              move_left = False, move_right = True\<rparr>
 \<and> poll_events [SDL_KEYUP SDLK_RIGHT, SDL_KEYDOWN SDLK_LEFT]
       \<lparr>player = \<lparr>Player.position = \<lparr>x = 8, y = 400\<rparr>,
                   Player.size' = \<lparr>x = 64, y = 64\<rparr>, speed = 4\<rparr>,
        enemy = \<lparr>Enemy.position = \<lparr>x = 292, y = 0\<rparr>,
                  Enemy.size' = \<lparr>x = 64, y = 64\<rparr>\<rparr>,
        elapsed_time = 8947849 / 268435456,
        move_left = False, move_right = True\<rparr>
     = Some \<lparr>player = \<lparr>Player.position = \<lparr>x = 8, y = 400\<rparr>,
                      Player.size' = \<lparr>x = 64, y = 64\<rparr>, speed = 4\<rparr>,
           enemy = \<lparr>Enemy.position = \<lparr>x = 292, y = 0\<rparr>,
                     Enemy.size' = \<lparr>x = 64, y = 64\<rparr>\<rparr>,
           elapsed_time = 8947849 / 268435456,
           move_left = True, move_right = False\<rparr>
 \<and> x (Player.position (player (update sinf_poly
       \<lparr>player = \<lparr>Player.position = \<lparr>x = 8, y = 400\<rparr>,
                   Player.size' = \<lparr>x = 64, y = 64\<rparr>, speed = 4\<rparr>,
        enemy = \<lparr>Enemy.position = \<lparr>x = 292, y = 0\<rparr>,
                  Enemy.size' = \<lparr>x = 64, y = 64\<rparr>\<rparr>,
        elapsed_time = 8947849 / 268435456,
        move_left = True, move_right = False\<rparr>))) = 4
 \<and> 0 \<le> x (Enemy.position (enemy (update sinf_poly
       \<lparr>player = \<lparr>Player.position = \<lparr>x = 8, y = 400\<rparr>,
                   Player.size' = \<lparr>x = 64, y = 64\<rparr>, speed = 4\<rparr>,
        enemy = \<lparr>Enemy.position = \<lparr>x = 292, y = 0\<rparr>,
                  Enemy.size' = \<lparr>x = 64, y = 64\<rparr>\<rparr>,
        elapsed_time = 8947849 / 268435456,
        move_left = True, move_right = False\<rparr>)))
 \<and> x (Enemy.position (enemy (update sinf_poly
       \<lparr>player = \<lparr>Player.position = \<lparr>x = 8, y = 400\<rparr>,
                   Player.size' = \<lparr>x = 64, y = 64\<rparr>, speed = 4\<rparr>,
        enemy = \<lparr>Enemy.position = \<lparr>x = 292, y = 0\<rparr>,
                  Enemy.size' = \<lparr>x = 64, y = 64\<rparr>\<rparr>,
        elapsed_time = 8947849 / 268435456,
        move_left = True, move_right = False\<rparr>))) \<le> 640 - 64"
proof -
  have p: "poll_events [SDL_KEYUP SDLK_RIGHT, SDL_KEYDOWN SDLK_LEFT]
       \<lparr>player = \<lparr>Player.position = \<lparr>x = 8, y = 400\<rparr>,
                   Player.size' = \<lparr>x = 64, y = 64\<rparr>, speed = 4\<rparr>,
        enemy = \<lparr>Enemy.position = \<lparr>x = 292, y = 0\<rparr>,
                  Enemy.size' = \<lparr>x = 64, y = 64\<rparr>\<rparr>,
        elapsed_time = 8947849 / 268435456,
        move_left = False, move_right = True\<rparr>
     = Some \<lparr>player = \<lparr>Player.position = \<lparr>x = 8, y = 400\<rparr>,
                      Player.size' = \<lparr>x = 64, y = 64\<rparr>, speed = 4\<rparr>,
           enemy = \<lparr>Enemy.position = \<lparr>x = 292, y = 0\<rparr>,
                     Enemy.size' = \<lparr>x = 64, y = 64\<rparr>\<rparr>,
           elapsed_time = 8947849 / 268435456,
           move_left = True, move_right = False\<rparr>"
    by simp
  show ?thesis
    using clamped_at_every_render [OF run_two_frames p] run_two_frames p
    by (simp add: update_player_x screen_width_def)
qed

text \<open>
  Claim C3. With only "move left" set, speed 4, width 64 and the player's \<open>x\<close>
  within \<open>[0, 640 - 64]\<close>, after \<open>N\<close> iterations the player's \<open>x\<close> is
  \<open>max 0 (x - N * 4)\<close>. The witness holds the key for 5 iterations from \<open>x = 0\<close>:
  \<open>x\<close> stays 0.
\<close>

theorem hold_left:
  assumes "move_left g" and "\<not> move_right g"
    and "speed (player g) = 4" and "x (Player.size' (player g)) = 64"
    and "0 \<le> x (Player.position (player g))"
    and "x (Player.position (player g)) \<le> screen_width - 64"
  shows "x (Player.position (player ((step sinf ^^ N) g)))
           = max 0 (x (Player.position (player g)) - int N * 4)"
proof (induction N)
  case 0
  from assms(5) show ?case by simp
next
  case (Suc N)
  let ?h = "(step sinf ^^ N) g"
  have "x (Player.position (player (step sinf ?h)))
          = min (max (x (Player.position (player ?h)) - 4) 0) (screen_width - 64)"
    using assms(1-4) by (simp add: update_player_x)
  with Suc assms(6) show ?case
    by (simp add: screen_width_def)
qed

theorem hold_left_witness:
  "move_left (game_init\<lparr>move_left := True\<rparr>)
 \<and> \<not> move_right (game_init\<lparr>move_left := True\<rparr>)
 \<and> speed (player (game_init\<lparr>move_left := True\<rparr>)) = 4
 \<and> x (Player.size' (player (game_init\<lparr>move_left := True\<rparr>))) = 64
 \<and> 0 \<le> x (Player.position (player (game_init\<lparr>move_left := True\<rparr>)))
 \<and> x (Player.position (player (game_init\<lparr>move_left := True\<rparr>))) \<le> screen_width - 64
 \<and> x (Player.position (player ((step sinf_poly ^^ 5) (game_init\<lparr>move_left := True\<rparr>)))) = 0"
  using hold_left [where g = "game_init\<lparr>move_left := True\<rparr>" and sinf = sinf_poly and N = 5]
  by (simp add: game_init_def player_init_def screen_width_def)

text \<open>
  Claim C4. With both "move left" and "move right" set and the player's \<open>x\<close>
  within \<open>[0, 640 - size.x]\<close>, any number of iterations leaves the player's \<open>x\<close>
  as it was. The speed is 4 and the width 64, the values that the program gives them
  and never changes: \<open>x - 4\<close>, \<open>x - 4 + 4\<close> and \<open>640 - 64\<close> are then computed
  in \<open>i32\<close> as they are in the integers.
\<close>

theorem hold_both:
  assumes "move_left g" and "move_right g"
    and "speed (player g) = 4" and "x (Player.size' (player g)) = 64"
    and "0 \<le> x (Player.position (player g))"
    and "x (Player.position (player g)) \<le> screen_width - 64"
  shows "x (Player.position (player ((step sinf ^^ N) g))) = x (Player.position (player g))"
proof (induction N)
  case 0
  show ?case by simp
next
  case (Suc N)
  let ?h = "(step sinf ^^ N) g"
  have "x (Player.position (player (step sinf ?h)))
          = min (max (x (Player.position (player ?h)) - 4 + 4) 0) (screen_width - 64)"
    using assms(1-4) by (simp add: update_player_x)
  with Suc assms(5,6) show ?case by simp
qed

theorem hold_both_witness:
  "move_left (game_init\<lparr>move_left := True, move_right := True,
      player := player_init\<lparr>Player.position := \<lparr>x = 100, y = 400\<rparr>\<rparr>\<rparr>)
 \<and> move_right (game_init\<lparr>move_left := True, move_right := True,
      player := player_init\<lparr>Player.position := \<lparr>x = 100, y = 400\<rparr>\<rparr>\<rparr>)
 \<and> speed (player (game_init\<lparr>move_left := True, move_right := True,
      player := player_init\<lparr>Player.position := \<lparr>x = 100, y = 400\<rparr>\<rparr>\<rparr>)) = 4
 \<and> x (Player.size' (player (game_init\<lparr>move_left := True, move_right := True,
      player := player_init\<lparr>Player.position := \<lparr>x = 100, y = 400\<rparr>\<rparr>\<rparr>))) = 64
 \<and> 0 \<le> (100 :: int) \<and> (100 :: int) \<le> screen_width - 64
 \<and> x (Player.position (player ((step sinf_poly ^^ 7)
        (game_init\<lparr>move_left := True, move_right := True,
           player := player_init\<lparr>Player.position := \<lparr>x = 100, y = 400\<rparr>\<rparr>\<rparr>)))) = 100"
  using hold_both [where g = "game_init\<lparr>move_left := True, move_right := True,
                    player := player_init\<lparr>Player.position := \<lparr>x = 100, y = 400\<rparr>\<rparr>\<rparr>"
                  and sinf = sinf_poly and N = 7]
  by (simp add: game_init_def player_init_def screen_width_def)

text \<open>
  Claim C9. In every state that the main loop reaches from the initial state the player's
  \<open>y\<close> is 400 and the enemy's \<open>y\<close> is 0, and the update step keeps them so.
\<close>

theorem y_fixed:
  assumes "run sinf batches game_init = Running g"
  shows "y (Player.position (player g)) = 400 \<and> y (Enemy.position (enemy g)) = 0
       \<and> y (Player.position (player (update sinf g))) = 400
       \<and> y (Enemy.position (enemy (update sinf g))) = 0"
proof -
  let ?P = "\<lambda>h. y (Player.position (player h)) = 400 \<and> y (Enemy.position (enemy h)) = 0"
  have "?P g"
  proof (rule run_induct_state [OF assms, where P = ?P])
    show "?P game_init"
      by (simp add: game_init_def player_init_def enemy_init_def)
  next
    fix es h h'
    assume "?P h" and "poll_events es h = Some h'"
    then show "?P (step sinf h')"
      using poll_events_keeps [of es h h'] by simp
  qed
  then show ?thesis by simp
qed

theorem y_fixed_witness:
  "run sinf_poly [[SDL_KEYDOWN SDLK_RIGHT], []] game_init =
     Running \<lparr>player = \<lparr>Player.position = \<lparr>x = 8, y = 400\<rparr>,
                         Player.size' = \<lparr>x = 64, y = 64\<rparr>, speed = 4\<rparr>,
              enemy = \<lparr>Enemy.position = \<lparr>x = 292, y = 0\<rparr>,
                        Enemy.size' = \<lparr>x = 64, y = 64\<rparr>\<rparr>,
              elapsed_time = 8947849 / 268435456,
              move_left = False, move_right = True\<rparr>
 \<and> y (Player.position (player (update sinf_poly
       \<lparr>player = \<lparr>Player.position = \<lparr>x = 8, y = 400\<rparr>,
                   Player.size' = \<lparr>x = 64, y = 64\<rparr>, speed = 4\<rparr>,
        enemy = \<lparr>Enemy.position = \<lparr>x = 292, y = 0\<rparr>,
                  Enemy.size' = \<lparr>x = 64, y = 64\<rparr>\<rparr>,
        elapsed_time = 8947849 / 268435456,
        move_left = False, move_right = True\<rparr>))) = 400
 \<and> y (Enemy.position (enemy (update sinf_poly
       \<lparr>player = \<lparr>Player.position = \<lparr>x = 8, y = 400\<rparr>,
                   Player.size' = \<lparr>x = 64, y = 64\<rparr>, speed = 4\<rparr>,
        enemy = \<lparr>Enemy.position = \<lparr>x = 292, y = 0\<rparr>,
                  Enemy.size' = \<lparr>x = 64, y = 64\<rparr>\<rparr>,
        elapsed_time = 8947849 / 268435456,
        move_left = False, move_right = True\<rparr>))) = 0"
  using y_fixed [OF run_two_frames] run_two_frames
  by simp

section \<open>The enemy's oscillation and the elapsed time\<close>

text \<open>
  The enemy that an update step produces depends on the enemy before and on the elapsed
  time only, so two runs of the same number of iterations end with the same enemy.
\<close>

lemma run_enemy_replay:
  assumes "length b1 = length b2"
    and "enemy s1 = enemy s2" and "elapsed_time s1 = elapsed_time s2"
    and "run sinf b1 s1 = Running g1" and "run sinf b2 s2 = Running g2"
  shows "enemy g1 = enemy g2"
  using assms
proof (induction b1 b2 arbitrary: s1 s2 rule: list_induct2)
  case Nil
  then show ?case by simp
next
  case (Cons es1 b1 es2 b2)
  from Cons.prems(3) obtain h1 where h1: "poll_events es1 s1 = Some h1"
    and r1: "run sinf b1 (step sinf h1) = Running g1"
    by (auto split: option.splits)
  from Cons.prems(4) obtain h2 where h2: "poll_events es2 s2 = Some h2"
    and r2: "run sinf b2 (step sinf h2) = Running g2"
    by (auto split: option.splits)
  from poll_events_keeps [OF h1] poll_events_keeps [OF h2] Cons.prems(1,2)
  have e: "enemy h1 = enemy h2" and t: "elapsed_time h1 = elapsed_time h2"
    by simp_all
  have "enemy (step sinf h1) = enemy (step sinf h2)"
    using update_enemy_cong [OF e t] by simp
  moreover have "elapsed_time (step sinf h1) = elapsed_time (step sinf h2)"
    using t by simp
  ultimately show ?case
    using Cons.IH r1 r2 by blast
qed

text \<open>
  Claim C1, amended. For an enemy of width 64 the update step sets the enemy's \<open>x\<close> to
  the \<open>f32\<close> product \<open>((sinf t + 1) / 2) * 576\<close> at the elapsed time \<open>t\<close>,
  with its fractional part discarded (not rounded to nearest), clamped to
  \<open>[0, 640 - 64]\<close>; for a sine between \<open>-1\<close> and 1 the clamp changes nothing.
  The position depends on the elapsed time alone: neither on the enemy's previous
  position nor on the input flags. Two runs of the same number of iterations from the
  initial state end with the same enemy, whatever their events were.
\<close>

theorem enemy_x_of_elapsed_time:
  "(x (Enemy.size' (enemy g)) = 64 \<longrightarrow>
      x (Enemy.position (enemy (update sinf g))) =
        min (max (f32_to_i32 (fmul (fdiv (fadd (sinf (elapsed_time g)) 1) 2) 576)) 0)
            (640 - 64))
 \<and> (x (Enemy.size' (enemy g)) = 64
      \<and> - 1 \<le> sinf (elapsed_time g) \<and> sinf (elapsed_time g) \<le> 1 \<longrightarrow>
      x (Enemy.position (enemy (update sinf g))) =
        f32_to_i32 (fmul (fdiv (fadd (sinf (elapsed_time g)) 1) 2) 576))
 \<and> (run sinf b1 game_init = Running g1 \<and> run sinf b2 game_init = Running g2
      \<and> length b1 = length b2 \<longrightarrow> enemy g1 = enemy g2)"
proof (intro conjI impI)
  assume "x (Enemy.size' (enemy g)) = 64"
  then show "x (Enemy.position (enemy (update sinf g))) =
        min (max (f32_to_i32 (fmul (fdiv (fadd (sinf (elapsed_time g)) 1) 2) 576)) 0)
            (640 - 64)"
    by (simp add: update_enemy_x screen_width_def i32_to_f32_576)
next
  let ?v = "fmul (fdiv (fadd (sinf (elapsed_time g)) 1) 2) 576"
  assume a: "x (Enemy.size' (enemy g)) = 64
      \<and> - 1 \<le> sinf (elapsed_time g) \<and> sinf (elapsed_time g) \<le> 1"
  then have "0 \<le> ?v" and "?v \<le> 576"
    using oscillator_range [of "sinf (elapsed_time g)"] by simp_all
  then have "0 \<le> f32_to_i32 ?v" and "f32_to_i32 ?v \<le> 576"
    by (simp_all add: f32_to_i32_def floor_le_iff)
  with a show "x (Enemy.position (enemy (update sinf g))) = f32_to_i32 ?v"
    by (simp add: update_enemy_x screen_width_def i32_to_f32_576)
next
  assume "run sinf b1 game_init = Running g1 \<and> run sinf b2 game_init = Running g2
      \<and> length b1 = length b2"
  then show "enemy g1 = enemy g2"
    using run_enemy_replay [of b1 b2 game_init game_init sinf g1 g2] by simp
qed

theorem enemy_x_of_elapsed_time_witness:
  "x (Enemy.size' (enemy (game_init\<lparr>elapsed_time := frame_time\<rparr>))) = 64
 \<and> - 1 \<le> sinf_poly frame_time \<and> sinf_poly frame_time \<le> 1
 \<and> x (Enemy.position (enemy (update sinf_poly (game_init\<lparr>elapsed_time := frame_time\<rparr>)))) = 292
 \<and> f32_to_i32 (fmul (fdiv (fadd (sinf_poly frame_time) 1) 2) 576) = 292
 \<and> (\<exists>g1 g2. run sinf_poly [[SDL_KEYDOWN SDLK_RIGHT], []] game_init = Running g1
        \<and> run sinf_poly [[], [SDL_KEYDOWN SDLK_LEFT]] game_init = Running g2
        \<and> enemy g1 = enemy g2)"
  using enemy_x_of_elapsed_time [where g = "game_init\<lparr>elapsed_time := frame_time\<rparr>"
      and sinf = sinf_poly and ?b1.0 = "[[SDL_KEYDOWN SDLK_RIGHT], []]"
      and ?b2.0 = "[[], [SDL_KEYDOWN SDLK_LEFT]]"]
    run_two_frames run_two_frames_other
  by (simp add: game_init_def enemy_init_def frame_time_value sinf_poly_frame_time
      oscillate_frame_time)

text \<open>
  At the elapsed time of the second iteration, \<open>frame_time\<close>, the update step gives
  the enemy \<open>x = 292\<close>, while rounding \<open>((sin t + 1) / 2) * (640 - 64)\<close> to the
  nearest integer gives 293.
\<close>

theorem enemy_x_round_counterexample:
  "x (Enemy.position (enemy (update sinf_poly (game_init\<lparr>elapsed_time := frame_time\<rparr>)))) = 292
 \<and> round (((sin frame_time + 1) / 2) * (640 - 64)) = 293
 \<and> round (((sinf_poly frame_time + 1) / 2) * (640 - 64)) = 293"
proof (intro conjI)
  show "x (Enemy.position (enemy (update sinf_poly (game_init\<lparr>elapsed_time := frame_time\<rparr>)))) = 292"
    by (simp add: update_enemy_x game_init_def enemy_init_def screen_width_def
        i32_to_f32_576 frame_time_value sinf_poly_frame_time oscillate_frame_time)
  show "round (((sin frame_time + 1) / 2) * (640 - 64)) = 293"
    using sin_frame_time_bounds
    by (simp add: round_def floor_eq_iff field_simps)
  show "round (((sinf_poly frame_time + 1) / 2) * (640 - 64)) = 293"
    by (simp add: frame_time_value sinf_poly_frame_time round_def)
qed

text \<open>
  Claim C5, amended. From the initial state with no input flag set, one update step
  leaves the player at \<open>(0, 400)\<close> and sets the enemy's \<open>x\<close> to 288, that is
  \<open>((sin 0 + 1) / 2) * (640 - 64)\<close>: the first update step runs at elapsed time 0
  (for a \<open>sinf\<close> with \<open>sinf 0 = 0\<close>).
\<close>

theorem first_update_step:
  assumes "sinf 0 = 0"
  shows "Player.position (player (update sinf game_init)) = \<lparr>x = 0, y = 400\<rparr>
       \<and> x (Enemy.position (enemy (update sinf game_init))) = 288
       \<and> f32_to_i32 (((sin 0 + 1) / 2) * (640 - 64)) = 288"
proof (intro conjI)
  show "Player.position (player (update sinf game_init)) = \<lparr>x = 0, y = 400\<rparr>"
    by (simp add: update_def move_player_def clamp_position_def Let_def
        game_init_def player_init_def screen_width_def)
  show "x (Enemy.position (enemy (update sinf game_init))) = 288"
    using assms
    by (simp add: update_enemy_x game_init_def enemy_init_def screen_width_def
        i32_to_f32_576 oscillate_0)
  show "f32_to_i32 (((sin 0 + 1) / 2) * (640 - 64)) = 288"
    by (simp add: f32_to_i32_def)
qed

theorem first_update_step_witness:
  "sinf_poly 0 = 0
 \<and> Player.position (player (update sinf_poly game_init)) = \<lparr>x = 0, y = 400\<rparr>
 \<and> x (Enemy.position (enemy (update sinf_poly game_init))) = 288"
  using first_update_step [where sinf = sinf_poly] sinf_poly_0 by simp

text \<open>
  After the first update step the enemy's \<open>x\<close> is 288, not the 292 (or, rounded to
  nearest, 293) that \<open>((sin (1/60) + 1) / 2) * (640 - 64)\<close> gives.
\<close>

theorem first_update_step_counterexample:
  "x (Enemy.position (enemy (update sinf_poly game_init))) = 288
 \<and> f32_to_i32 (((sin (1 / 60) + 1) / 2) * (640 - 64)) = 292
 \<and> round (((sin (1 / 60 :: real) + 1) / 2) * (640 - 64)) = 293"
proof (intro conjI)
  show "x (Enemy.position (enemy (update sinf_poly game_init))) = 288"
    by (simp add: update_enemy_x game_init_def enemy_init_def screen_width_def
        i32_to_f32_576 sinf_poly_0 oscillate_0)
  have nonneg: "0 \<le> ((sin (1 / 60 :: real) + 1) / 2) * (640 - 64)"
    using sin_sixtieth_bounds by simp
  have "\<lfloor>((sin (1 / 60 :: real) + 1) / 2) * (640 - 64)\<rfloor> = 292"
    using sin_sixtieth_bounds by (intro floor_unique) simp_all
  with nonneg show "f32_to_i32 (((sin (1 / 60) + 1) / 2) * (640 - 64)) = 292"
    by (simp add: f32_to_i32_def)
  show "round (((sin (1 / 60 :: real) + 1) / 2) * (640 - 64)) = 293"
    using sin_sixtieth_bounds
    by (simp add: round_def floor_eq_iff field_simps)
qed



lemma run_elapsed_time:
  "run sinf batches g = Running g' \<Longrightarrow>
     elapsed_time g' = ((\<lambda>t. fadd t frame_time) ^^ length batches) (elapsed_time g)"
proof (induction batches arbitrary: g)
  case Nil
  then show ?case by simp
next
  case (Cons es batches)
  from Cons.prems obtain h where h: "poll_events es g = Some h"
    and r: "run sinf batches (step sinf h) = Running g'"
    by (auto split: option.splits)
  from poll_events_keeps [OF h] have "elapsed_time h = elapsed_time g" by simp
  with Cons.IH [OF r] funpow_swap1 [of "\<lambda>t. fadd t frame_time" "length batches" "elapsed_time g"]
  show ?case by simp
qed

lemma funpow_step_elapsed_time:
  "elapsed_time ((step sinf ^^ n) g) = ((\<lambda>t. fadd t frame_time) ^^ n) (elapsed_time g)"
  by (induction n) simp_all

text \<open>
  Claim C6, amended. After \<open>N\<close> iterations from the initial state, whatever the
  events were, the elapsed time is the result of \<open>N\<close> \<open>f32\<close> additions of
  \<open>frame_time\<close> to 0, each rounded to the nearest \<open>f32\<close>. It is \<open>N * frame_time\<close>
  for \<open>N \<le> 2\<close>.
\<close>

theorem elapsed_time_accumulates:
  assumes "run sinf batches game_init = Running g"
  shows "elapsed_time g = ((\<lambda>t. fadd t frame_time) ^^ length batches) 0
       \<and> (length batches \<le> 2 \<longrightarrow> elapsed_time g = real (length batches) * frame_time)"
proof -
  have acc: "elapsed_time g = ((\<lambda>t. fadd t frame_time) ^^ length batches) 0"
    using run_elapsed_time [OF assms] by (simp add: game_init_def)
  have "elapsed_time g = real (length batches) * frame_time" if "length batches \<le> 2"
  proof -
    from that consider "length batches = 0" | "length batches = 1" | "length batches = 2"
      by linarith
    then show ?thesis
    proof cases
      case 1
      with acc show ?thesis by simp
    next
      case 2
      with acc show ?thesis by (simp add: fadd_frame_time_0)
    next
      case 3
      with acc show ?thesis
        by (simp add: numeral_2_eq_2 fadd_frame_time_0 fadd_frame_time_1)
    qed
  qed
  with acc show ?thesis by blast
qed

theorem elapsed_time_accumulates_witness:
  "run sinf_poly [[SDL_KEYDOWN SDLK_RIGHT], []] game_init =
     Running \<lparr>player = \<lparr>Player.position = \<lparr>x = 8, y = 400\<rparr>,
                         Player.size' = \<lparr>x = 64, y = 64\<rparr>, speed = 4\<rparr>,
              enemy = \<lparr>Enemy.position = \<lparr>x = 292, y = 0\<rparr>,
                        Enemy.size' = \<lparr>x = 64, y = 64\<rparr>\<rparr>,
              elapsed_time = 8947849 / 268435456,
              move_left = False, move_right = True\<rparr>
 \<and> (8947849 / 268435456 :: real) = fadd (fadd 0 frame_time) frame_time
 \<and> (8947849 / 268435456 :: real) = 2 * frame_time"
  using elapsed_time_accumulates [OF run_two_frames] run_two_frames
  by (simp add: numeral_2_eq_2)

lemma eighteen_frames:
  "((\<lambda>t. fadd t frame_time) ^^ 18) 0 = fadd (fadd (fadd (fadd (fadd (fadd (fadd (fadd (fadd (fadd (fadd (fadd (fadd (fadd (fadd (fadd (fadd (fadd (0) frame_time) frame_time) frame_time) frame_time) frame_time) frame_time) frame_time) frame_time) frame_time) frame_time) frame_time) frame_time) frame_time) frame_time) frame_time) frame_time) frame_time) frame_time"
  by (simp add: eval_nat_numeral)

lemma eighteen_frames_value: "fadd (fadd (fadd (fadd (fadd (fadd (fadd (fadd (fadd (fadd (fadd (fadd (fadd (fadd (fadd (fadd (fadd (fadd (0) frame_time) frame_time) frame_time) frame_time) frame_time) frame_time) frame_time) frame_time) frame_time) frame_time) frame_time) frame_time) frame_time) frame_time) frame_time) frame_time) frame_time) frame_time = 10066331 / 33554432"
  by (simp add: frame_time_value f32_eval)

text \<open>
  After 18 iterations the elapsed time is \<open>10066331 / 2^25\<close>. That is neither
  \<open>18 / 60\<close> nor \<open>18 * frame_time\<close>, and neither of these two products rounded to
  \<open>f32\<close>.
\<close>

theorem elapsed_time_exact_counterexample:
  "elapsed_time ((step sinf_poly ^^ 18) game_init) = 10066331 / 33554432
 \<and> elapsed_time ((step sinf_poly ^^ 18) game_init) \<noteq> 18 * (1 / 60)
 \<and> elapsed_time ((step sinf_poly ^^ 18) game_init) \<noteq> 18 * frame_time
 \<and> elapsed_time ((step sinf_poly ^^ 18) game_init) \<noteq> fmul 18 frame_time
 \<and> elapsed_time ((step sinf_poly ^^ 18) game_init) \<noteq> fmul 18 (1 / 60)"
proof -
  have v: "elapsed_time ((step sinf_poly ^^ 18) game_init) = 10066331 / 33554432"
    using eighteen_frames eighteen_frames_value
    by (simp add: funpow_step_elapsed_time game_init_def)
  have "fmul 18 frame_time = 5033165 / 16777216"
    by (simp add: frame_time_value f32_eval)
  moreover have "fmul 18 (1 / 60) = 5033165 / 16777216"
    by (simp add: f32_eval)
  ultimately show ?thesis
    unfolding v by (simp add: frame_time_value)
qed

section \<open>The install directory\<close>

lemma strlen_no_NUL: "NUL \<notin> set buffer \<Longrightarrow> strlen buffer = Inl OutOfBounds"
  by (induction buffer) auto

lemma strlen_NUL: "NUL \<notin> set path \<Longrightarrow> strlen (path @ NUL # rest) = Inr (length path)"
  by (induction path) auto

lemma readlink_root_init:
  "readlink (Some path) root_init max_path_len =
     Inr (take max_path_len path @ replicate (max_path_len - length path) NUL)"
  by (simp add: readlink_def root_init_def Let_def min_def take_all)

lemma root_init_Cons: "root_init = NUL # replicate 255 NUL"
  by (simp add: root_init_def max_path_len_def numeral_eq_Suc)

lemma strip_loop_done: "i \<le> 0 \<Longrightarrow> strip_loop buffer i removed = Inr buffer"
  by (subst strip_loop.simps) simp

lemma strip_loop_in_bounds:
  "i < int (length buffer) \<Longrightarrow> \<exists>b. strip_loop buffer i removed = Inr b \<and> length b = length buffer"
proof (induction buffer i removed rule: strip_loop.induct)
  case (1 buffer i removed)
  show ?case
  proof (cases "0 < i")
    case False
    then show ?thesis by simp
  next
    case True
    with "1.prems" have lt: "nat i < length buffer" by simp
    let ?removed = "if buffer ! nat i = CHR ''/'' then removed + 1 else removed"
    show ?thesis
    proof (cases "?removed = 3")
      case True
      with \<open>0 < i\<close> lt show ?thesis
        by (subst strip_loop.simps) (simp add: Let_def)
    next
      case False
      have "\<exists>b. strip_loop (buffer[nat i := NUL]) (i - 1) ?removed = Inr b
              \<and> length b = length (buffer[nat i := NUL])"
        using "1.IH" [OF \<open>0 < i\<close> lt refl refl False] "1.prems" by simp
      with False \<open>0 < i\<close> lt show ?thesis
        by (subst strip_loop.simps) (simp add: Let_def)
    qed
  qed
qed

lemma set_install_dir_short:
  assumes "NUL \<notin> set path" and "length path < max_path_len"
  shows "set_install_dir (Some path) root_init max_path_len =
           strip_loop (path @ replicate (max_path_len - length path) NUL)
             (int (length path) - 1) 0"
proof -
  from assms(2) obtain k where k: "max_path_len - length path = Suc k"
    by (cases "max_path_len - length path") simp_all
  then have "strlen (path @ replicate (max_path_len - length path) NUL) = Inr (length path)"
    using strlen_NUL [OF assms(1)] by simp
  with assms(2) show ?thesis
    by (simp add: set_install_dir_def readlink_root_init Let_def)
qed

text \<open>
  With fewer than three separators left to count, the loop never stops at
  \<open>removed = 3\<close>: it zeroes every byte from index \<open>n\<close> down to index 1.
\<close>

lemma strip_loop_few_separators:
  assumes "n < length buffer"
    and "int (length (filter (\<lambda>c. c = CHR ''/'') (take (Suc n) buffer))) + removed < 3"
  shows "strip_loop buffer (int n) removed =
           Inr (take 1 buffer @ replicate n NUL @ drop (Suc n) buffer)"
  using assms
proof (induction n arbitrary: buffer removed)
  case 0
  then show ?case
    by (cases buffer) simp_all
next
  case (Suc n)
  let ?removed = "if buffer ! Suc n = CHR ''/'' then removed + 1 else removed"
  let ?buffer = "buffer[Suc n := NUL]"
  from Suc.prems(1) have tk: "take (Suc (Suc n)) buffer = take (Suc n) buffer @ [buffer ! Suc n]"
    by (simp add: take_Suc_conv_app_nth)
  with Suc.prems(2)
  have cnt: "int (length (filter (\<lambda>c. c = CHR ''/'') (take (Suc n) buffer))) + ?removed < 3"
    by (simp split: if_splits)
  then have ne: "?removed \<noteq> 3" by linarith
  have "strip_loop ?buffer (int n) ?removed =
          Inr (take 1 ?buffer @ replicate n NUL @ drop (Suc n) ?buffer)"
    using Suc.IH [of ?buffer ?removed] Suc.prems(1) cnt by simp
  moreover have "take 1 ?buffer = take 1 buffer"
    by simp
  moreover have "drop (Suc n) ?buffer = NUL # drop (Suc (Suc n)) buffer"
    using Suc.prems(1) by (simp add: drop_update_swap [symmetric] Cons_nth_drop_Suc [symmetric] upd_conv_take_nth_drop)
  ultimately have "strip_loop ?buffer (int n) ?removed =
          Inr (take 1 buffer @ replicate (Suc n) NUL @ drop (Suc (Suc n)) buffer)"
    by (simp add: replicate_append_same)
  with ne Suc.prems(1) show ?case
    by (subst strip_loop.simps) (simp add: Let_def nat_add_distrib)
qed

lemma set_install_dir_few_separators:
  assumes "NUL \<notin> set path" and "length path < max_path_len"
    and "length (filter (\<lambda>c. c = CHR ''/'') path) < 3"
  shows "set_install_dir (Some path) root_init max_path_len =
           Inr (take 1 path @ replicate (max_path_len - length (take 1 path)) NUL)"
proof (cases path)
  case Nil
  then show ?thesis
    using set_install_dir_short [OF assms(1,2)] by (simp add: strip_loop_done)
next
  case (Cons c cs)
  let ?buffer = "path @ replicate (max_path_len - length path) NUL"
  have "strip_loop ?buffer (int (length cs)) 0 =
          Inr (take 1 ?buffer @ replicate (length cs) NUL @ drop (Suc (length cs)) ?buffer)"
    using assms(2,3) Cons by (intro strip_loop_few_separators) simp_all
  moreover have "replicate (length cs) NUL @ replicate (max_path_len - Suc (length cs)) NUL
      = replicate (max_path_len - 1) NUL"
    using assms(2) Cons by (simp add: replicate_add [symmetric])
  ultimately show ?thesis
    using set_install_dir_short [OF assms(1,2)] Cons by simp
qed

lemma c_str_first_byte:
  "NUL \<notin> set path \<Longrightarrow>
     c_str (take 1 path @ replicate (max_path_len - length (take 1 path)) NUL) = take 1 path"
  by (cases path) (auto simp: c_str_def max_path_len_def numeral_eq_Suc)

text \<open>Going up from an absolute path with fewer than three separators ends at the root.\<close>

lemma spec_parent_root: "spec_parent ''/'' = ''/''"
  by (simp add: spec_parent_def)

lemma spec_parent_top:
  assumes "CHR ''/'' \<notin> set q"
  shows "spec_parent (CHR ''/'' # q) = ''/''"
proof -
  from assms have "dropWhile (\<lambda>c. c \<noteq> CHR ''/'') (rev q @ ''/'') = ''/''"
    by (subst dropWhile_append2) auto
  then show ?thesis
    by (simp add: spec_parent_def)
qed

lemma spec_parent_below_top:
  assumes "CHR ''/'' \<notin> set b"
  shows "spec_parent (CHR ''/'' # a @ CHR ''/'' # b) = CHR ''/'' # a"
proof -
  from assms
  have "dropWhile (\<lambda>c. c \<noteq> CHR ''/'') (rev b @ CHR ''/'' # rev a @ ''/'')
          = CHR ''/'' # rev a @ ''/''"
    by (subst dropWhile_append2) auto
  then show ?thesis
    by (simp add: spec_parent_def)
qed

lemma spec_three_levels_up_absolute:
  assumes "length (filter (\<lambda>c. c = CHR ''/'') (CHR ''/'' # q)) < 3"
  shows "spec_three_levels_up (CHR ''/'' # q) = ''/''"
proof (cases "CHR ''/'' \<in> set q")
  case False
  then show ?thesis
    by (simp add: spec_three_levels_up_def spec_parent_top spec_parent_root)
next
  case True
  then obtain a b where q: "q = a @ CHR ''/'' # b" and b: "CHR ''/'' \<notin> set b"
    using split_list_last [of "CHR ''/''" q] by blast
  from assms q have "length (filter (\<lambda>c. c = CHR ''/'') a) = 0"
    by simp
  then have a: "CHR ''/'' \<notin> set a"
    by (auto simp: filter_empty_conv)
  from q a b show ?thesis
    by (simp add: spec_three_levels_up_def spec_parent_below_top spec_parent_top
        spec_parent_root)
qed

text \<open>
  Claim C7, amended. For a path with fewer than three separators (without \<open>NUL\<close>,
  shorter than the buffer) the loop of \<open>set_install_dir\<close> never reaches
  \<open>removed = 3\<close>: it runs down to index 1 and zeroes every byte of the path but the
  first. The base directory is the first byte of the path alone. For an absolute path
  that is \<open>/\<close>, the root directory, which is where going up three levels from such a
  path ends: the base directory is not too long.
\<close>

theorem few_separators_keep_first_byte:
  assumes "NUL \<notin> set path" and "length path < max_path_len"
    and "length (filter (\<lambda>c. c = CHR ''/'') path) < 3"
  shows "set_install_dir (Some path) root_init max_path_len =
           Inr (take 1 path @ replicate (max_path_len - length (take 1 path)) NUL)
       \<and> c_str (take 1 path @ replicate (max_path_len - length (take 1 path)) NUL) = take 1 path
       \<and> (take 1 path = ''/'' \<longrightarrow> spec_three_levels_up path = ''/'')"
proof (intro conjI impI)
  show "set_install_dir (Some path) root_init max_path_len =
           Inr (take 1 path @ replicate (max_path_len - length (take 1 path)) NUL)"
    using assms by (rule set_install_dir_few_separators)
  show "c_str (take 1 path @ replicate (max_path_len - length (take 1 path)) NUL) = take 1 path"
    using assms(1) by (rule c_str_first_byte)
next
  assume "take 1 path = ''/''"
  then obtain q where "path = CHR ''/'' # q"
    by (cases path) simp_all
  with assms(3) show "spec_three_levels_up path = ''/''"
    using spec_three_levels_up_absolute [of q] by simp
qed

theorem few_separators_keep_first_byte_witness:
  "NUL \<notin> set ''/a/b'' \<and> length ''/a/b'' < max_path_len
 \<and> length (filter (\<lambda>c. c = CHR ''/'') ''/a/b'') < 3
 \<and> take 1 ''/a/b'' = ''/''
 \<and> set_install_dir (Some ''/a/b'') root_init max_path_len = Inr (''/'' @ replicate 255 NUL)
 \<and> c_str (''/'' @ replicate 255 NUL) = ''/''
 \<and> spec_three_levels_up ''/a/b'' = ''/''"
  using few_separators_keep_first_byte [of "''/a/b''"]
  by (simp add: NUL_def max_path_len_def)

text \<open>
  An executable at \<open>/bin/recurse_invaders\<close> has two separators in its path. The base
  directory that \<open>set_install_dir\<close> leaves is \<open>/\<close>, and three levels up from the path
  is \<open>/\<close> too: the base directory is not longer than the intended one.
\<close>

theorem too_long_counterexample:
  "set_install_dir (Some ''/bin/recurse_invaders'') root_init max_path_len
     = Inr (''/'' @ replicate 255 NUL)
 \<and> c_str (''/'' @ replicate 255 NUL) = ''/''
 \<and> spec_three_levels_up ''/bin/recurse_invaders'' = ''/''
 \<and> \<not> length (spec_three_levels_up ''/bin/recurse_invaders'')
       < length (c_str (''/'' @ replicate 255 NUL))"
proof -
  have a: "set_install_dir (Some ''/bin/recurse_invaders'') root_init max_path_len
     = Inr (''/'' @ replicate 255 NUL)"
    using set_install_dir_few_separators [of "''/bin/recurse_invaders''"]
    by (simp add: NUL_def max_path_len_def)
  have b: "c_str (''/'' @ replicate 255 NUL) = ''/''"
    using c_str_first_byte [of "''/bin/recurse_invaders''"]
    by (simp add: NUL_def max_path_len_def)
  have c: "spec_three_levels_up ''/bin/recurse_invaders'' = ''/''"
    using spec_three_levels_up_absolute [of "''bin/recurse_invaders''"] by simp
  from a b c show ?thesis by simp
qed

text \<open>
  Claim C10. On the zeroed buffer of \<open>max_path_len\<close> bytes and a path without
  \<open>NUL\<close>: when the path is shorter than the buffer, \<open>set_install_dir\<close> stays within
  the buffer and returns; when it is not, \<open>strlen\<close> runs past the end of the buffer.
  It also does on a buffer without a zero byte, whatever the length of the path is:
  the terminator that \<open>strlen\<close> finds is a byte that \<open>readlink\<close> did not write.
\<close>

theorem set_install_dir_safe_iff_short:
  assumes "NUL \<notin> set path"
  shows "(length path < max_path_len \<longrightarrow>
           (\<exists>buffer. set_install_dir (Some path) root_init max_path_len = Inr buffer
                     \<and> length buffer = max_path_len))
       \<and> (max_path_len \<le> length path \<longrightarrow>
           readlink (Some path) root_init max_path_len = Inr (take max_path_len path)
           \<and> strlen (take max_path_len path) = Inl OutOfBounds
           \<and> set_install_dir (Some path) root_init max_path_len = Inl OutOfBounds)
       \<and> (NUL \<notin> set buffer \<longrightarrow>
           set_install_dir (Some path) buffer (length buffer) = Inl OutOfBounds)"
proof (intro conjI impI)
  assume short: "length path < max_path_len"
  have "int (length path) - 1 < int (length (path @ replicate (max_path_len - length path) NUL))"
    using short by simp
  from strip_loop_in_bounds [OF this, of 0] short
  show "\<exists>buffer. set_install_dir (Some path) root_init max_path_len = Inr buffer
                     \<and> length buffer = max_path_len"
    by (simp add: set_install_dir_short [OF assms short])
next
  assume long: "max_path_len \<le> length path"
  then show r: "readlink (Some path) root_init max_path_len = Inr (take max_path_len path)"
    by (simp add: readlink_root_init)
  have "NUL \<notin> set (take max_path_len path)"
    using assms by (auto dest: in_set_takeD)
  then show l: "strlen (take max_path_len path) = Inl OutOfBounds"
    by (rule strlen_no_NUL)
  from r l show "set_install_dir (Some path) root_init max_path_len = Inl OutOfBounds"
    by (simp add: set_install_dir_def)
next
  let ?n = "min (length path) (length buffer)"
  assume "NUL \<notin> set buffer"
  with assms have "NUL \<notin> set (take ?n path @ drop ?n buffer)"
    by (auto dest: in_set_takeD in_set_dropD)
  then have "strlen (take ?n path @ drop ?n buffer) = Inl OutOfBounds"
    by (rule strlen_no_NUL)
  then show "set_install_dir (Some path) buffer (length buffer) = Inl OutOfBounds"
    by (simp add: set_install_dir_def readlink_def Let_def)
qed

theorem set_install_dir_safe_iff_short_witness:
  "NUL \<notin> set ''/home/u/repo/build/linux/recurse_invaders''
 \<and> length ''/home/u/repo/build/linux/recurse_invaders'' < max_path_len
 \<and> (\<exists>buffer. set_install_dir (Some ''/home/u/repo/build/linux/recurse_invaders'')
                 root_init max_path_len = Inr buffer \<and> length buffer = max_path_len)
 \<and> NUL \<notin> set (replicate 256 (CHR ''a''))
 \<and> max_path_len \<le> length (replicate 256 (CHR ''a''))
 \<and> set_install_dir (Some (replicate 256 (CHR ''a''))) root_init max_path_len = Inl OutOfBounds
 \<and> NUL \<notin> set ''xxxx''
 \<and> set_install_dir (Some ''/a'') ''xxxx'' (length ''xxxx'') = Inl OutOfBounds"
  using set_install_dir_safe_iff_short [of "''/home/u/repo/build/linux/recurse_invaders''"]
    set_install_dir_safe_iff_short [of "replicate 256 (CHR ''a'')"]
    set_install_dir_safe_iff_short [of "''/a''" "''xxxx''"]
  by (simp add: NUL_def max_path_len_def)


section \<open>Exit status\<close>

text \<open>When \<open>set_install_dir\<close> returns, the buffer holds a zero byte.\<close>

lemma strlen_terminated: "strlen buffer = Inr n \<Longrightarrow> NUL \<in> set buffer"
  by (induction buffer arbitrary: n) (auto split: if_splits sum.splits)

lemma strip_loop_terminated:
  "strip_loop buffer i removed = Inr b \<Longrightarrow> NUL \<in> set buffer \<Longrightarrow> NUL \<in> set b"
proof (induction buffer i removed rule: strip_loop.induct)
  case (1 buffer i removed)
  show ?case
  proof (cases "0 < i \<and> nat i < length buffer")
    case False
    with "1.prems" show ?thesis
      by (subst (asm) strip_loop.simps) (auto split: if_splits)
  next
    case True
    let ?removed = "if buffer ! nat i = CHR ''/'' then removed + 1 else removed"
    from True have upd: "NUL \<in> set (buffer[nat i := NUL])"
      by (simp add: set_update_memI)
    show ?thesis
    proof (cases "?removed = 3")
      case True
      with \<open>0 < i \<and> nat i < length buffer\<close> "1.prems"(1) have "b = buffer[nat i := NUL]"
        by (subst (asm) strip_loop.simps) (simp add: Let_def)
      with upd show ?thesis by simp
    next
      case False
      with True "1.prems"(1)
      have "strip_loop (buffer[nat i := NUL]) (i - 1) ?removed = Inr b"
        by (subst (asm) strip_loop.simps) (simp add: Let_def)
      with "1.IH" [OF _ _ refl refl False] True upd show ?thesis
        by simp
    qed
  qed
qed

lemma set_install_dir_terminated:
  assumes "set_install_dir target buffer buffer_len = Inr b"
  shows "NUL \<in> set b"
proof -
  from assms obtain b0 len where "strlen b0 = Inr len"
    and "strip_loop b0 (int len - 1) 0 = Inr b"
    by (auto simp add: set_install_dir_def simp del: strip_loop.simps split: sum.splits)
  then show ?thesis
    using strlen_terminated [of b0 len] strip_loop_terminated [of b0 "int len - 1" 0 b]
    by simp
qed

lemma run_defined: "run sinf batches g \<noteq> Undefined"
  by (induction batches arbitrary: g) (auto split: option.splits)

text \<open>
  An executable in \<open>build/linux\<close> under \<open>/home/u/repo\<close>, and one whose path fills the
  buffer.
\<close>

lemma init_example:
  "init (Some ''/home/u/repo/build/linux/recurse_invaders'')
     = Inr (''/home/u/repo'' @ replicate 244 NUL, ''/home/u/repo/assets'')"
  by code_simp

lemma init_long_path: "init (Some (replicate 256 (CHR ''a''))) = Inl OutOfBounds"
  by code_simp

lemma asset_example:
  "asset ''/home/u/repo/assets'' ''ship.png'' max_path_len = ''/home/u/repo/assets/ship.png''"
  "asset ''/home/u/repo/assets'' ''enemy.png'' max_path_len = ''/home/u/repo/assets/enemy.png''"
  by (simp_all add: asset_def snprintf_def max_path_len_def)

text \<open>
  Claim C8. \<open>main\<close> returns 0 exactly when the initialization succeeds and some batch of
  events holds \<open>SDL_QUIT\<close>. It returns 1 exactly when \<open>SDL_Init\<close> fails, or
  \<open>SDL_CreateWindowAndRenderer\<close> fails, or one of the two textures does not load. The
  textures are loaded only when \<open>SDL_GetWindowSurface\<close> has given a surface and
  \<open>set_install_dir\<close> has stayed inside \<open>root\<close>; otherwise the behaviour is undefined
  and the model gives \<open>main\<close> neither 0 nor 1. The loop returns 0 on \<open>SDL_QUIT\<close> from
  every state, whatever the movement flags are.
\<close>

theorem exit_status:
  "(main sinf env batches = Exited 0 \<longleftrightarrow>
      0 \<le> SDL_Init env \<and> 0 \<le> SDL_CreateWindowAndRenderer env \<and> SDL_GetWindowSurface env
      \<and> (\<exists>root' assets. init (proc_self_exe env) = Inr (root', assets)
             \<and> IMG_LoadTexture env (asset assets ''ship.png'' max_path_len)
             \<and> IMG_LoadTexture env (asset assets ''enemy.png'' max_path_len))
      \<and> (\<exists>es\<in>set batches. SDL_QUIT \<in> set es))
 \<and> (main sinf env batches = Exited 1 \<longleftrightarrow>
      SDL_Init env < 0
      \<or> 0 \<le> SDL_Init env \<and> SDL_CreateWindowAndRenderer env < 0
      \<or> 0 \<le> SDL_Init env \<and> 0 \<le> SDL_CreateWindowAndRenderer env \<and> SDL_GetWindowSurface env
        \<and> (\<exists>root' assets. init (proc_self_exe env) = Inr (root', assets)
               \<and> (\<not> IMG_LoadTexture env (asset assets ''ship.png'' max_path_len)
                    \<or> \<not> IMG_LoadTexture env (asset assets ''enemy.png'' max_path_len))))
 \<and> (main sinf env batches = Undefined \<longleftrightarrow>
      0 \<le> SDL_Init env \<and> 0 \<le> SDL_CreateWindowAndRenderer env
      \<and> (\<not> SDL_GetWindowSurface env \<or> (\<exists>e. init (proc_self_exe env) = Inl e)))
 \<and> (run sinf batches g = Exited 0 \<longleftrightarrow> (\<exists>es\<in>set batches. SDL_QUIT \<in> set es))"
proof (intro conjI)
  show "run sinf batches g = Exited 0 \<longleftrightarrow> (\<exists>es\<in>set batches. SDL_QUIT \<in> set es)"
    by (rule run_quit)
  show "main sinf env batches = Exited 0 \<longleftrightarrow>
      0 \<le> SDL_Init env \<and> 0 \<le> SDL_CreateWindowAndRenderer env \<and> SDL_GetWindowSurface env
      \<and> (\<exists>root' assets. init (proc_self_exe env) = Inr (root', assets)
             \<and> IMG_LoadTexture env (asset assets ''ship.png'' max_path_len)
             \<and> IMG_LoadTexture env (asset assets ''enemy.png'' max_path_len))
      \<and> (\<exists>es\<in>set batches. SDL_QUIT \<in> set es)"
    using run_quit [of sinf batches game_init]
    by (cases "init (proc_self_exe env)") (auto simp: main_def split: if_splits)
  show "main sinf env batches = Exited 1 \<longleftrightarrow>
      SDL_Init env < 0
      \<or> 0 \<le> SDL_Init env \<and> SDL_CreateWindowAndRenderer env < 0
      \<or> 0 \<le> SDL_Init env \<and> 0 \<le> SDL_CreateWindowAndRenderer env \<and> SDL_GetWindowSurface env
        \<and> (\<exists>root' assets. init (proc_self_exe env) = Inr (root', assets)
               \<and> (\<not> IMG_LoadTexture env (asset assets ''ship.png'' max_path_len)
                    \<or> \<not> IMG_LoadTexture env (asset assets ''enemy.png'' max_path_len)))"
    using run_exit_code [of sinf batches game_init 1]
    by (cases "init (proc_self_exe env)") (auto simp: main_def split: if_splits)
  show "main sinf env batches = Undefined \<longleftrightarrow>
      0 \<le> SDL_Init env \<and> 0 \<le> SDL_CreateWindowAndRenderer env
      \<and> (\<not> SDL_GetWindowSurface env \<or> (\<exists>e. init (proc_self_exe env) = Inl e))"
    using run_defined [of sinf batches game_init]
    by (cases "init (proc_self_exe env)") (auto simp: main_def split: if_splits)
qed

theorem exit_status_witness:
  "main sinf_poly
     \<lparr>SDL_Init = 0, SDL_CreateWindowAndRenderer = 0, SDL_GetWindowSurface = True,
       proc_self_exe = Some ''/home/u/repo/build/linux/recurse_invaders'',
       IMG_LoadTexture = (\<lambda>p. p = ''/home/u/repo/assets/ship.png''
                              \<or> p = ''/home/u/repo/assets/enemy.png'')\<rparr>
     [[SDL_KEYDOWN SDLK_LEFT], [SDL_other, SDL_QUIT], []] = Exited 0
 \<and> SDL_QUIT \<in> set [SDL_other, SDL_QUIT]
 \<and> main sinf_poly
     \<lparr>SDL_Init = 0, SDL_CreateWindowAndRenderer = 0, SDL_GetWindowSurface = True,
       proc_self_exe = Some ''/home/u/repo/build/linux/recurse_invaders'',
       IMG_LoadTexture = (\<lambda>p. p = ''/home/u/repo/assets/ship.png'')\<rparr>
     [[SDL_KEYDOWN SDLK_LEFT], [SDL_other, SDL_QUIT], []] = Exited 1
 \<and> main sinf_poly
     \<lparr>SDL_Init = 0, SDL_CreateWindowAndRenderer = 0, SDL_GetWindowSurface = False,
       proc_self_exe = Some ''/home/u/repo/build/linux/recurse_invaders'',
       IMG_LoadTexture = (\<lambda>p. p = ''/home/u/repo/assets/ship.png''
                              \<or> p = ''/home/u/repo/assets/enemy.png'')\<rparr>
     [[SDL_KEYDOWN SDLK_LEFT], [SDL_other, SDL_QUIT], []] = Undefined
 \<and> main sinf_poly
     \<lparr>SDL_Init = 0, SDL_CreateWindowAndRenderer = 0, SDL_GetWindowSurface = True,
       proc_self_exe = Some (replicate 256 (CHR ''a'')),
       IMG_LoadTexture = (\<lambda>p. p = ''/home/u/repo/assets/ship.png''
                              \<or> p = ''/home/u/repo/assets/enemy.png'')\<rparr>
     [[SDL_KEYDOWN SDLK_LEFT], [SDL_other, SDL_QUIT], []] = Undefined
 \<and> run sinf_poly [[SDL_KEYDOWN SDLK_LEFT], [SDL_other, SDL_QUIT], []]
       (game_init\<lparr>move_left := True, move_right := True\<rparr>) = Exited 0"
  using exit_status [where sinf = sinf_poly
      and env = "\<lparr>SDL_Init = 0, SDL_CreateWindowAndRenderer = 0, SDL_GetWindowSurface = True,
       proc_self_exe = Some ''/home/u/repo/build/linux/recurse_invaders'',
       IMG_LoadTexture = (\<lambda>p. p = ''/home/u/repo/assets/ship.png''
                              \<or> p = ''/home/u/repo/assets/enemy.png'')\<rparr>"
      and batches = "[[SDL_KEYDOWN SDLK_LEFT], [SDL_other, SDL_QUIT], []]"
      and g = "game_init\<lparr>move_left := True, move_right := True\<rparr>"]
    exit_status [where sinf = sinf_poly
      and env = "\<lparr>SDL_Init = 0, SDL_CreateWindowAndRenderer = 0, SDL_GetWindowSurface = True,
       proc_self_exe = Some ''/home/u/repo/build/linux/recurse_invaders'',
       IMG_LoadTexture = (\<lambda>p. p = ''/home/u/repo/assets/ship.png'')\<rparr>"
      and batches = "[[SDL_KEYDOWN SDLK_LEFT], [SDL_other, SDL_QUIT], []]"
      and g = game_init]
    exit_status [where sinf = sinf_poly
      and env = "\<lparr>SDL_Init = 0, SDL_CreateWindowAndRenderer = 0, SDL_GetWindowSurface = False,
       proc_self_exe = Some ''/home/u/repo/build/linux/recurse_invaders'',
       IMG_LoadTexture = (\<lambda>p. p = ''/home/u/repo/assets/ship.png''
                              \<or> p = ''/home/u/repo/assets/enemy.png'')\<rparr>"
      and batches = "[[SDL_KEYDOWN SDLK_LEFT], [SDL_other, SDL_QUIT], []]"
      and g = game_init]
    exit_status [where sinf = sinf_poly
      and env = "\<lparr>SDL_Init = 0, SDL_CreateWindowAndRenderer = 0, SDL_GetWindowSurface = True,
       proc_self_exe = Some (replicate 256 (CHR ''a'')),
       IMG_LoadTexture = (\<lambda>p. p = ''/home/u/repo/assets/ship.png''
                              \<or> p = ''/home/u/repo/assets/enemy.png'')\<rparr>"
      and batches = "[[SDL_KEYDOWN SDLK_LEFT], [SDL_other, SDL_QUIT], []]"
      and g = game_init]
  by (simp add: init_example init_long_path asset_example)

end
